theory Spec2Isabelle
  imports Main "HOL-Library.Sublist"
begin

section \<open>The RTSP player component: endpoint resolver and playback session\<close>

text \<open>
  This theory embeds \<^verbatim>\<open>src/components/RTSPPlayer.tsx\<close> (the MediaMTX player) and the
  resolver of the older player variant (\<^verbatim>\<open>convertToHLSUrl\<close>). JavaScript strings are
  modelled as \<^typ>\<open>string\<close>; every place where the source could raise a
  \<^verbatim>\<open>TypeError\<close> (a method call on \<^verbatim>\<open>undefined\<close>) is a branch returning \<open>Inl TypeError\<close>.
  Console output is not part of the model.
\<close>

subsection \<open>JavaScript string primitives used by the resolver\<close>

datatype js_error = TypeError

text \<open>\<^verbatim>\<open>s.includes(sub)\<close>: \<open>sub\<close> occurs at some position of \<open>s\<close>.\<close>

fun js_includes :: "string \<Rightarrow> string \<Rightarrow> bool" where
  "js_includes [] sub = (sub = [])"
| "js_includes (c # cs) sub = (prefix sub (c # cs) \<or> js_includes cs sub)"

text \<open>\<^verbatim>\<open>s.startsWith(p)\<close>.\<close>

definition startsWith :: "string \<Rightarrow> string \<Rightarrow> bool" where
  "startsWith s p = prefix p s"

text \<open>
  \<^verbatim>\<open>s.split(sep)\<close> for a string separator: the pieces between the successive leftmost,
  non-overlapping occurrences of \<open>sep\<close>. The result of splitting with a non-empty
  separator always has at least one piece (\<^verbatim>\<open>''.split('/')\<close> is \<^verbatim>\<open>['']\<close>); the empty
  separator splits into single characters.
\<close>

function js_split :: "string \<Rightarrow> string \<Rightarrow> string list" where
  "js_split sep [] = (if sep = [] then [] else [[]])"
| "js_split sep (c # cs) =
     (if sep = [] then [c] # js_split sep cs
      else if prefix sep (c # cs) then [] # js_split sep (drop (length sep) (c # cs))
      else (case js_split sep cs of
              [] \<Rightarrow> [[c]]
            | p # ps \<Rightarrow> (c # p) # ps))"
  by pat_completeness auto
termination
  by (relation "measure (\<lambda>(sep, s). length s)") auto

text \<open>\<^verbatim>\<open>xs[i]\<close>: \<open>None\<close> stands for \<^verbatim>\<open>undefined\<close> (index out of range).\<close>

definition idx :: "'a list \<Rightarrow> nat \<Rightarrow> 'a option" where
  "idx xs i = (if i < length xs then Some (xs ! i) else None)"

text \<open>\<^verbatim>\<open>v || d\<close> on a possibly undefined string: \<^verbatim>\<open>undefined\<close> and \<^verbatim>\<open>''\<close> are falsy.\<close>

definition or_default :: "string option \<Rightarrow> string \<Rightarrow> string" where
  "or_default v d = (case v of None \<Rightarrow> d | Some s \<Rightarrow> if s = [] then d else s)"

text \<open>String conversion inside a template literal.\<close>

definition to_str :: "string option \<Rightarrow> string" where
  "to_str v = (case v of None \<Rightarrow> ''undefined'' | Some s \<Rightarrow> s)"

subsection \<open>The two resolvers\<close>

text \<open>
  \<^verbatim>\<open>convertRTSPToMediaMTXHLS\<close> (RTSPPlayer.tsx, lines 47-70). The chain
  \<^verbatim>\<open>rtspUrl.split('//')[1].split('/')[0].split(':')[0]\<close> raises when an intermediate index is
  \<^verbatim>\<open>undefined\<close>.
\<close>

definition convertRTSPToMediaMTXHLS :: "string \<Rightarrow> js_error + string" where
  "convertRTSPToMediaMTXHLS rtspUrl =
     (if js_includes rtspUrl ''.m3u8'' then Inr rtspUrl
      else if startsWith rtspUrl ''rtsp://'' then
        (let urlParts = js_split ''/'' rtspUrl;
             streamPath = or_default (idx urlParts (length urlParts - 1)) ''stream''
         in case idx (js_split ''//'' rtspUrl) 1 of
              None \<Rightarrow> Inl TypeError
            | Some afterScheme \<Rightarrow>
                (case idx (js_split ''/'' afterScheme) 0 of
                   None \<Rightarrow> Inl TypeError
                 | Some hostPort \<Rightarrow>
                     Inr (''http://'' @ to_str (idx (js_split '':'' hostPort) 0) @ '':8888/''
                          @ streamPath @ ''/index.m3u8'')))
      else Inr rtspUrl)"

text \<open>\<^verbatim>\<open>convertToHLSUrl\<close> of the older player variant (lines 46-64 there).\<close>

definition convertToHLSUrl :: "string \<Rightarrow> string" where
  "convertToHLSUrl url =
     (if js_includes url ''.m3u8'' then url
      else if startsWith url ''rtsp://'' then ''http://localhost:3001/hls/stream.m3u8''
      else url)"

subsection \<open>The resolver as the specification words it\<close>

text \<open>
  The host of a locator: the text after the seven characters of the scheme prefix up to the
  first slash or colon. The last component of a locator: the text after its last slash.
  The path of a locator: what follows the scheme prefix from the first slash on (empty
  when the locator names a host only); its last component is the last path component.
\<close>

definition spec_host :: "string \<Rightarrow> string" where
  "spec_host locator =
     takeWhile (\<lambda>ch. ch \<noteq> CHR ''/'' \<and> ch \<noteq> CHR '':'') (drop 7 locator)"

definition spec_last_component :: "string \<Rightarrow> string" where
  "spec_last_component locator = rev (takeWhile (\<lambda>ch. ch \<noteq> CHR ''/'') (rev locator))"

definition spec_path :: "string \<Rightarrow> string" where
  "spec_path locator = dropWhile (\<lambda>ch. ch \<noteq> CHR ''/'') (drop 7 locator)"

definition spec_path_component :: "string \<Rightarrow> string" where
  "spec_path_component locator =
     rev (takeWhile (\<lambda>ch. ch \<noteq> CHR ''/'') (rev (spec_path locator)))"

definition spec_stream :: "string \<Rightarrow> string" where
  "spec_stream locator =
     (if spec_last_component locator = [] then ''stream'' else spec_last_component locator)"

definition spec_resolve :: "string \<Rightarrow> string" where
  "spec_resolve locator =
     (if sublist ''.m3u8'' locator then locator
      else if prefix ''rtsp://'' locator then
        ''http://'' @ spec_host locator @ '':8888/'' @ spec_stream locator @ ''/index.m3u8''
      else locator)"

subsection \<open>The playback session\<close>

text \<open>
  The component's state: the two refs, the \<^verbatim>\<open>useState\<close> cells and the \<^verbatim>\<open>rtspUrl\<close> prop of
  the current render. Hls client objects are identified by a number; \<open>clients\<close> holds the
  clients that were constructed and not yet destroyed, each with the URL its handlers
  captured (the argument of \<^verbatim>\<open>loadSource\<close>). \<open>videoSrc\<close> is the URL the component itself
  assigned to \<^verbatim>\<open>videoRef.current.src\<close> (the native path). \<open>nativeListeners\<close> holds, per native
  load, the URL captured by the listeners added to the video element with
  \<^verbatim>\<open>addEventListener\<close>; the source never removes them.
\<close>

datatype stream_mode = HlsMode | ErrorMode

datatype error_type = NetworkError | MediaError | KeySystemError | MuxError | OtherError

record error_data =
  fatal :: bool
  errType :: error_type
  details :: string

datatype hls_event = MANIFEST_PARSED | MEDIA_ATTACHED | FRAG_LOADED | ERROR error_data

datatype video_event = VPlay | VPause | VLoadStart | VCanPlay | VError | VLoadedData

text \<open>
  What the runtime answers: whether \<^verbatim>\<open>videoRef.current\<close> is set, \<^verbatim>\<open>Hls.isSupported()\<close>, and
  whether \<^verbatim>\<open>canPlayType('application/vnd.apple.mpegurl')\<close> is a non-empty string.
\<close>

record runtime =
  videoMounted :: bool
  hlsSupported :: bool
  nativeHls :: bool

record player =
  rtspUrl :: string
  hlsRef :: "nat option"
  clients :: "(nat \<times> string) list"
  nextClient :: nat
  videoSrc :: "string option"
  nativeListeners :: "string list"
  isPlaying :: bool
  isMuted :: bool
  isLoading :: bool
  error :: "string option"
  streamMode :: stream_mode

definition init :: player where
  "init = \<lparr> rtspUrl = [], hlsRef = None, clients = [], nextClient = 0, videoSrc = None,
            nativeListeners = [], isPlaying = False, isMuted = False, isLoading = False,
            error = None, streamMode = HlsMode \<rparr>"

text \<open>\<^verbatim>\<open>cleanup\<close> (lines 40-45): destroy the referenced client and null the reference.\<close>

definition cleanup :: "player \<Rightarrow> player" where
  "cleanup s =
     (case hlsRef s of
        None \<Rightarrow> s
      | Some h \<Rightarrow> s\<lparr> clients := filter (\<lambda>p. fst p \<noteq> h) (clients s), hlsRef := None \<rparr>)"

definition unsupportedMessage :: string where
  "unsupportedMessage =
     ''HLS not supported in this browser. Please use a modern browser with HLS support.''"

text \<open>\<^verbatim>\<open>loadHLSStream\<close> (lines 72-177).\<close>

definition loadHLSStream :: "runtime \<Rightarrow> string \<Rightarrow> player \<Rightarrow> player" where
  "loadHLSStream rt hlsUrl s =
     (if \<not> videoMounted rt then s
      else
        let s1 = cleanup s;
            s2 = s1\<lparr> isLoading := True, error := None, streamMode := HlsMode \<rparr>
        in if hlsSupported rt then
             s2\<lparr> clients := clients s2 @ [(nextClient s2, hlsUrl)],
                 hlsRef := Some (nextClient s2),
                 nextClient := Suc (nextClient s2) \<rparr>
           else if nativeHls rt then
             s2\<lparr> videoSrc := Some hlsUrl,
                 nativeListeners := nativeListeners s2 @ [hlsUrl] \<rparr>
           else
             s2\<lparr> error := Some unsupportedMessage, streamMode := ErrorMode,
                 isLoading := False \<rparr>)"

text \<open>The message of a fatal error (lines 127-137), by error type.\<close>

definition fatalMessage :: "string \<Rightarrow> error_data \<Rightarrow> string" where
  "fatalMessage hlsUrl d =
     (case errType d of
        NetworkError \<Rightarrow>
          ''Network error loading MediaMTX HLS stream: '' @ details d
          @ ''. Check if MediaMTX is running and accessible at: '' @ hlsUrl
      | MediaError \<Rightarrow>
          ''Media error in MediaMTX HLS stream: '' @ details d
          @ ''. Check RTSP source and MediaMTX configuration.''
      | _ \<Rightarrow> ''Fatal MediaMTX HLS error: '' @ details d)"

text \<open>The \<^verbatim>\<open>Hls.Events.ERROR\<close> handler (lines 123-143) of a client that loaded \<open>hlsUrl\<close>.\<close>

definition onHlsError :: "string \<Rightarrow> error_data \<Rightarrow> player \<Rightarrow> player" where
  "onHlsError hlsUrl d s =
     (if fatal d then
        s\<lparr> error := Some (fatalMessage hlsUrl d), streamMode := ErrorMode, isLoading := False \<rparr>
      else s)"

text \<open>
  An event of client \<open>i\<close>. A destroyed client has no handlers left, so its events change
  nothing. A successful \<^verbatim>\<open>play()\<close> is observed later through the video element's
  \<^verbatim>\<open>play\<close> event, so the autoplay call itself changes no state.
\<close>

definition hlsEvent :: "nat \<Rightarrow> hls_event \<Rightarrow> player \<Rightarrow> player" where
  "hlsEvent i ev s =
     (case map_of (clients s) i of
        None \<Rightarrow> s
      | Some hlsUrl \<Rightarrow>
          (case ev of
             MANIFEST_PARSED \<Rightarrow> s\<lparr> isLoading := False, error := None \<rparr>
           | MEDIA_ATTACHED \<Rightarrow> s
           | FRAG_LOADED \<Rightarrow> s
           | ERROR d \<Rightarrow> onHlsError hlsUrl d s))"

definition safariMessage :: "string \<Rightarrow> string" where
  "safariMessage hlsUrl = ''Error loading MediaMTX HLS stream in Safari: '' @ hlsUrl"

text \<open>
  An event of the video element: the JSX handlers (lines 251-254) and the listeners the
  native path registered (lines 150-170), every registered listener in registration order.
\<close>

definition videoEvent :: "video_event \<Rightarrow> player \<Rightarrow> player" where
  "videoEvent ev s =
     (case ev of
        VPlay \<Rightarrow> s\<lparr> isPlaying := True \<rparr>
      | VPause \<Rightarrow> s\<lparr> isPlaying := False \<rparr>
      | VLoadStart \<Rightarrow> s\<lparr> isLoading := True \<rparr>
      | VCanPlay \<Rightarrow> s\<lparr> isLoading := False \<rparr>
      | VError \<Rightarrow>
          foldl (\<lambda>t u. t\<lparr> error := Some (safariMessage u), streamMode := ErrorMode,
                           isLoading := False \<rparr>) s (nativeListeners s)
      | VLoadedData \<Rightarrow>
          (if nativeListeners s = [] then s else s\<lparr> isLoading := False, error := None \<rparr>))"

definition playFailedMessage :: string where
  "playFailedMessage = ''Failed to play stream. User interaction may be required.''"

text \<open>\<^verbatim>\<open>togglePlay\<close> (lines 179-190); \<open>playOk\<close> tells whether the \<^verbatim>\<open>play()\<close> promise resolves.\<close>

definition togglePlay :: "runtime \<Rightarrow> bool \<Rightarrow> player \<Rightarrow> player" where
  "togglePlay rt playOk s =
     (if videoMounted rt then
        (if isPlaying s then s
         else if playOk then s
         else s\<lparr> error := Some playFailedMessage \<rparr>)
      else s)"

definition toggleMute :: "runtime \<Rightarrow> player \<Rightarrow> player" where
  "toggleMute rt s = (if videoMounted rt then s\<lparr> isMuted := \<not> isMuted s \<rparr> else s)"

text \<open>The body of the effect on \<^verbatim>\<open>rtspUrl\<close> (lines 32-36) and \<^verbatim>\<open>retryStream\<close> (lines 212-218).\<close>

definition rtspUrlEffect :: "runtime \<Rightarrow> player \<Rightarrow> js_error + player" where
  "rtspUrlEffect rt s =
     (if rtspUrl s \<noteq> [] then
        (case convertRTSPToMediaMTXHLS (rtspUrl s) of
           Inl e \<Rightarrow> Inl e
         | Inr hlsUrl \<Rightarrow> Inr (loadHLSStream rt hlsUrl s))
      else Inr s)"

definition retryStream :: "runtime \<Rightarrow> player \<Rightarrow> js_error + player" where
  "retryStream rt s =
     (let s1 = s\<lparr> error := None \<rparr>
      in if rtspUrl s1 \<noteq> [] then
           (case convertRTSPToMediaMTXHLS (rtspUrl s1) of
              Inl e \<Rightarrow> Inl e
            | Inr hlsUrl \<Rightarrow> Inr (loadHLSStream rt hlsUrl s1))
         else Inr s1)"

text \<open>
  A new value of the \<^verbatim>\<open>rtspUrl\<close> prop: the previous effect's cleanup runs, then the effect
  body with the new prop. An unchanged prop does not re-run the effect.
\<close>

definition setLocator :: "runtime \<Rightarrow> string \<Rightarrow> player \<Rightarrow> js_error + player" where
  "setLocator rt url s =
     (if url = rtspUrl s then Inr s
      else rtspUrlEffect rt ((cleanup s)\<lparr> rtspUrl := url \<rparr>))"

text \<open>
  The error overlay with the retry button is rendered when \<^verbatim>\<open>error && streamMode === 'error'\<close>
  (line 275); the play button is disabled when \<^verbatim>\<open>isLoading || (error && streamMode === 'error')\<close>
  (line 313).
\<close>

definition errorShown :: "player \<Rightarrow> bool" where
  "errorShown s =
     ((case error s of None \<Rightarrow> False | Some m \<Rightarrow> m \<noteq> []) \<and> streamMode s = ErrorMode)"

definition playDisabled :: "player \<Rightarrow> bool" where
  "playDisabled s = (isLoading s \<or> errorShown s)"

text \<open>What can happen to a mounted component, and a run of such happenings.\<close>

datatype action =
    SetLocator string
  | Start string
  | Unmount
  | ClickRetry
  | ClickPlay bool
  | ClickMute
  | HlsEvent nat hls_event
  | VideoEvent video_event

definition step :: "runtime \<Rightarrow> action \<Rightarrow> player \<Rightarrow> js_error + player" where
  "step rt a s =
     (case a of
        SetLocator url \<Rightarrow> setLocator rt url s
      | Start hlsUrl \<Rightarrow> Inr (loadHLSStream rt hlsUrl s)
      | Unmount \<Rightarrow> Inr (cleanup s)
      | ClickRetry \<Rightarrow> (if errorShown s then retryStream rt s else Inr s)
      | ClickPlay playOk \<Rightarrow> Inr (if playDisabled s then s else togglePlay rt playOk s)
      | ClickMute \<Rightarrow> Inr (toggleMute rt s)
      | HlsEvent i ev \<Rightarrow> Inr (hlsEvent i ev s)
      | VideoEvent ev \<Rightarrow> Inr (videoEvent ev s))"

fun run :: "runtime \<Rightarrow> action list \<Rightarrow> player \<Rightarrow> js_error + player" where
  "run rt [] s = Inr s"
| "run rt (a # as) s = (case step rt a s of Inl e \<Rightarrow> Inl e | Inr s' \<Rightarrow> run rt as s')"

text \<open>Actions that start a load attempt, and actions that are callbacks only.\<close>

fun startsLoad :: "action \<Rightarrow> bool" where
  "startsLoad (SetLocator url) = (url \<noteq> [])"
| "startsLoad (Start hlsUrl) = True"
| "startsLoad _ = False"

fun isCallback :: "action \<Rightarrow> bool" where
  "isCallback (HlsEvent i ev) = True"
| "isCallback (VideoEvent ev) = True"
| "isCallback _ = False"

text \<open>The session invariant: the live clients are exactly the referenced one, and client
  identities in use are below the next identity.\<close>

definition session_ok :: "player \<Rightarrow> bool" where
  "session_ok s =
     (map fst (clients s) = (case hlsRef s of None \<Rightarrow> [] | Some h \<Rightarrow> [h])
      \<and> list_all (\<lambda>p. fst p < nextClient s) (clients s))"

text \<open>A session on which no load attempt has left a trace.\<close>

definition pristine :: "player \<Rightarrow> bool" where
  "pristine s =
     (streamMode s = HlsMode \<and> clients s = [] \<and> nativeListeners s = [] \<and> hlsRef s = None)"

section \<open>Properties of the JavaScript string primitives\<close>

lemma js_includes_sublist: "js_includes s sub = sublist sub s"
  by (induction s) (auto simp: sublist_Cons_right)

lemma js_split_not_Nil: "sep \<noteq> [] \<Longrightarrow> js_split sep s \<noteq> []"
  by (induction s) (auto split: list.splits)

lemma js_split_char_Cons:
  "js_split [c] (x # xs) =
     (if x = c then [] # js_split [c] xs
      else (x # hd (js_split [c] xs)) # tl (js_split [c] xs))"
  using js_split_not_Nil [of "[c]" xs] by (auto split: list.splits)

lemma hd_js_split_char: "hd (js_split [c] s) = takeWhile (\<lambda>x. x \<noteq> c) s"
  by (induction s) (simp_all add: js_split_char_Cons del: js_split.simps(2))

lemma js_split_char_absent: "c \<notin> set s \<Longrightarrow> js_split [c] s = [s]"
  by (induction s) (auto simp add: js_split_char_Cons simp del: js_split.simps(2))

lemma js_split_char_present: "c \<in> set s \<Longrightarrow> tl (js_split [c] s) \<noteq> []"
  using js_split_not_Nil [of "[c]"]
  by (induction s) (auto simp add: js_split_char_Cons simp del: js_split.simps(2))

lemma last_js_split_char: "last (js_split [c] s) = rev (takeWhile (\<lambda>x. x \<noteq> c) (rev s))"
proof (induction s)
  case Nil
  show ?case by simp
next
  case (Cons x xs)
  show ?case
  proof (cases "c \<in> set xs")
    case True
    then have "tl (js_split [c] xs) \<noteq> []" by (rule js_split_char_present)
    then have "last (js_split [c] (x # xs)) = last (js_split [c] xs)"
      using js_split_not_Nil [of "[c]" xs]
      by (cases "js_split [c] xs") (auto simp add: js_split_char_Cons simp del: js_split.simps(2))
    moreover have "takeWhile (\<lambda>x. x \<noteq> c) (rev xs @ [x]) = takeWhile (\<lambda>x. x \<noteq> c) (rev xs)"
      using True by (intro takeWhile_append1[of c]) auto
    ultimately show ?thesis using Cons.IH by simp
  next
    case False
    then have "takeWhile (\<lambda>x. x \<noteq> c) (rev xs @ [x]) = rev xs @ takeWhile (\<lambda>x. x \<noteq> c) [x]"
      by (intro takeWhile_append2) auto
    then show ?thesis using False
      by (simp add: js_split_char_Cons js_split_char_absent del: js_split.simps(2))
  qed
qed

lemma takeWhile_hd_js_split_double:
  "takeWhile (\<lambda>x. x \<noteq> c) (hd (js_split [c, c] s)) = takeWhile (\<lambda>x. x \<noteq> c) s"
proof (induction s)
  case Nil
  show ?case by simp
next
  case (Cons x xs)
  have ne: "js_split [c, c] xs \<noteq> []" by (rule js_split_not_Nil) simp
  show ?case
  proof (cases "prefix [c, c] (x # xs)")
    case True
    then show ?thesis by auto
  next
    case False
    then have "hd (js_split [c, c] (x # xs)) = x # hd (js_split [c, c] xs)"
      using ne by (cases "js_split [c, c] xs") auto
    then show ?thesis using Cons.IH by simp
  qed
qed

lemma takeWhile_twice:
  "takeWhile P (takeWhile Q xs) = takeWhile (\<lambda>x. Q x \<and> P x) xs"
  by (induction xs) auto

lemma js_split_rtsp_scheme:
  "js_split ''//'' (''rtsp://'' @ r) = ''rtsp:'' # js_split ''//'' r"
  by simp

section \<open>The resolver\<close>

text \<open>On a protocol-scheme locator without the manifest pattern the resolver never raises
  and builds the MediaMTX URL from the host and the last path component.\<close>

lemma resolver_translates:
  assumes "startsWith url ''rtsp://''" and "\<not> js_includes url ''.m3u8''"
  shows "convertRTSPToMediaMTXHLS url =
           Inr (''http://'' @ spec_host url @ '':8888/'' @ spec_stream url @ ''/index.m3u8'')"
proof -
  from assms(1) obtain r where url: "url = ''rtsp://'' @ r"
    by (auto simp: startsWith_def prefix_def)
  have parts: "js_split ''/'' url \<noteq> []" by (rule js_split_not_Nil) simp
  have sp: "or_default (idx (js_split ''/'' url) (length (js_split ''/'' url) - 1)) ''stream''
              = spec_stream url"
    using parts last_js_split_char [of "CHR ''/''" url]
    by (simp add: idx_def or_default_def spec_stream_def spec_last_component_def last_conv_nth)
  have ne2: "js_split ''//'' r \<noteq> []" by (rule js_split_not_Nil) simp
  have i1: "idx (js_split ''//'' url) 1 = Some (hd (js_split ''//'' r))"
    using ne2 unfolding url js_split_rtsp_scheme
    by (cases "js_split ''//'' r") (simp_all add: idx_def)
  have ne3: "js_split ''/'' a \<noteq> []" for a by (rule js_split_not_Nil) simp
  have i2: "idx (js_split ''/'' a) 0 = Some (hd (js_split ''/'' a))" for a
    using ne3 [of a] by (cases "js_split ''/'' a") (simp_all add: idx_def)
  have ne4: "js_split '':'' a \<noteq> []" for a by (rule js_split_not_Nil) simp
  have i3: "idx (js_split '':'' a) 0 = Some (hd (js_split '':'' a))" for a
    using ne4 [of a] by (cases "js_split '':'' a") (simp_all add: idx_def)
  have host: "hd (js_split '':'' (hd (js_split ''/'' (hd (js_split ''//'' r))))) = spec_host url"
    unfolding hd_js_split_char takeWhile_hd_js_split_double takeWhile_twice spec_host_def url
    by simp
  show ?thesis
    unfolding convertRTSPToMediaMTXHLS_def Let_def sp i1 i2 i3
    using assms by (simp add: host to_str_def)
qed

lemma resolver_refines_spec: "convertRTSPToMediaMTXHLS url = Inr (spec_resolve url)"
proof (cases "js_includes url ''.m3u8''")
  case True
  then show ?thesis
    by (simp add: convertRTSPToMediaMTXHLS_def spec_resolve_def js_includes_sublist)
next
  case False
  show ?thesis
  proof (cases "startsWith url ''rtsp://''")
    case True
    with False resolver_translates [of url] show ?thesis
      by (simp add: spec_resolve_def js_includes_sublist startsWith_def)
  next
    case no: False
    with False show ?thesis
      by (simp add: convertRTSPToMediaMTXHLS_def spec_resolve_def js_includes_sublist
          startsWith_def)
  qed
qed

lemma mediamtx_url_not_proxy:
  "a @ ''/index.m3u8'' \<noteq> ''http://localhost:3001/hls/stream.m3u8''"
proof
  assume "a @ ''/index.m3u8'' = ''http://localhost:3001/hls/stream.m3u8''"
  then have "a @ ''/index.m3u8'' = ''http://localhost:3001/hls/'' @ ''stream.m3u8''" by simp
  then have "''/index.m3u8'' = ''stream.m3u8''"
    by (subst (asm) append_eq_append_conv) simp_all
  then show False by simp
qed

lemma spec_last_component_slash:
  "url \<noteq> [] \<Longrightarrow> last url = CHR ''/'' \<Longrightarrow> spec_last_component url = []"
  by (cases url rule: rev_cases) (simp_all add: spec_last_component_def)

lemma last_component_of_suffix:
  "c \<in> set p \<Longrightarrow>
   takeWhile (\<lambda>x. x \<noteq> c) (rev (a @ p)) = takeWhile (\<lambda>x. x \<noteq> c) (rev p)"
  by (simp add: takeWhile_append1 [of c])

lemma spec_path_component_eq:
  assumes "startsWith url ''rtsp://''" and "spec_path url \<noteq> []"
  shows "spec_path_component url = spec_last_component url"
proof -
  from assms(1) obtain r where url: "url = ''rtsp://'' @ r"
    by (auto simp: startsWith_def prefix_def)
  let ?P = "\<lambda>ch. ch \<noteq> CHR ''/''"
  have p: "spec_path url = dropWhile ?P r" by (simp add: spec_path_def url)
  with assms(2) have "hd (dropWhile ?P r) = CHR ''/''"
    using hd_dropWhile [of ?P r] by auto
  with assms(2) p have mem: "CHR ''/'' \<in> set (dropWhile ?P r)"
    by (metis list.set_sel(1))
  have "url = (''rtsp://'' @ takeWhile ?P r) @ dropWhile ?P r"
    unfolding url by simp
  then have "takeWhile ?P (rev url) = takeWhile ?P (rev (dropWhile ?P r))"
    using last_component_of_suffix [OF mem, of "''rtsp://'' @ takeWhile ?P r"] by simp
  then show ?thesis by (simp add: spec_path_component_def spec_last_component_def p)
qed

text \<open>
  Claim C2, as stated, at the locator \<^verbatim>\<open>rtsp://host:554/\<close>: the path is a single slash,
  its last component is empty, and the resolver puts the default name \<^verbatim>\<open>stream\<close> in its
  place (\<^verbatim>\<open>|| 'stream'\<close>, line 58), so the result is not the URL built from the host and
  the last path component.
\<close>

theorem resolver_translation_counterexample:
  "startsWith ''rtsp://host:554/'' ''rtsp://''
   \<and> \<not> js_includes ''rtsp://host:554/'' ''.m3u8''
   \<and> spec_host ''rtsp://host:554/'' = ''host''
   \<and> spec_path ''rtsp://host:554/'' = ''/''
   \<and> spec_path_component ''rtsp://host:554/'' = []
   \<and> convertRTSPToMediaMTXHLS ''rtsp://host:554/'' = Inr ''http://host:8888/stream/index.m3u8''
   \<and> convertRTSPToMediaMTXHLS ''rtsp://host:554/''
       \<noteq> Inr (''http://'' @ spec_host ''rtsp://host:554/'' @ '':8888/''
                @ spec_path_component ''rtsp://host:554/'' @ ''/index.m3u8'')"
  by (simp add: convertRTSPToMediaMTXHLS_def startsWith_def spec_host_def spec_path_def
      spec_path_component_def idx_def or_default_def to_str_def)

text \<open>
  Claim C2, amended: for every locator that starts with \<^verbatim>\<open>rtsp://\<close>, does not contain
  \<^verbatim>\<open>.m3u8\<close> and has a path, the resolver returns \<^verbatim>\<open>http://h:8888/s/index.m3u8\<close>, where
  \<open>h\<close> is the text between the scheme's double slash and the first slash or colon after
  it, and \<open>s\<close> is the last slash-separated path component of the locator, or \<^verbatim>\<open>stream\<close>
  when that component is empty.
\<close>

theorem resolver_translation:
  "startsWith url ''rtsp://'' \<Longrightarrow> \<not> js_includes url ''.m3u8'' \<Longrightarrow> spec_path url \<noteq> [] \<Longrightarrow>
   convertRTSPToMediaMTXHLS url =
     Inr (''http://'' @ spec_host url @ '':8888/''
          @ (if spec_path_component url = [] then ''stream'' else spec_path_component url)
          @ ''/index.m3u8'')"
  using resolver_translates [of url] spec_path_component_eq [of url]
  by (simp add: spec_stream_def)

text \<open>The locator \<^verbatim>\<open>rtsp://host:554/mystream\<close> resolves to
  \<^verbatim>\<open>http://host:8888/mystream/index.m3u8\<close>.\<close>

theorem resolver_translation_witness:
  "startsWith ''rtsp://host:554/mystream'' ''rtsp://''
   \<and> \<not> js_includes ''rtsp://host:554/mystream'' ''.m3u8''
   \<and> spec_path ''rtsp://host:554/mystream'' \<noteq> []
   \<and> spec_host ''rtsp://host:554/mystream'' = ''host''
   \<and> spec_path_component ''rtsp://host:554/mystream'' = ''mystream''
   \<and> convertRTSPToMediaMTXHLS ''rtsp://host:554/mystream''
       = Inr ''http://host:8888/mystream/index.m3u8''"
proof -
  have a: "startsWith ''rtsp://host:554/mystream'' ''rtsp://''" by (simp add: startsWith_def)
  have b: "\<not> js_includes ''rtsp://host:554/mystream'' ''.m3u8''" by simp
  have c: "spec_path ''rtsp://host:554/mystream'' \<noteq> []" by (simp add: spec_path_def)
  have h: "spec_host ''rtsp://host:554/mystream'' = ''host''" by (simp add: spec_host_def)
  have s: "spec_path_component ''rtsp://host:554/mystream'' = ''mystream''"
    by (simp add: spec_path_component_def spec_path_def)
  show ?thesis
    using a b c h s resolver_translation [OF a b c] by simp
qed

text \<open>
  Claim C6: a locator that contains the manifest pattern \<^verbatim>\<open>.m3u8\<close> is returned unchanged.
\<close>
theorem manifest_locator_unchanged:
  "js_includes url ''.m3u8'' \<Longrightarrow> convertRTSPToMediaMTXHLS url = Inr url"
  by (simp add: convertRTSPToMediaMTXHLS_def)

text \<open>A manifest URL with a query string is returned as it is.\<close>
theorem manifest_locator_unchanged_witness:
  "js_includes ''http://cdn.example/live/index.m3u8?token=1'' ''.m3u8''
   \<and> convertRTSPToMediaMTXHLS ''http://cdn.example/live/index.m3u8?token=1''
       = Inr ''http://cdn.example/live/index.m3u8?token=1''"
proof -
  have a: "js_includes ''http://cdn.example/live/index.m3u8?token=1'' ''.m3u8''" by simp
  show ?thesis using a manifest_locator_unchanged [OF a] by simp
qed

text \<open>
  Claim C7, as stated, at the locator \<^verbatim>\<open>rtsp://:554/cam\<close>, which names a port but no
  host: the resolver has no test for a malformed locator, sees the scheme prefix and
  translates, so the result is \<^verbatim>\<open>http://:8888/cam/index.m3u8\<close> and not the input.
\<close>

theorem malformed_locator_counterexample:
  "startsWith ''rtsp://:554/cam'' ''rtsp://''
   \<and> \<not> js_includes ''rtsp://:554/cam'' ''.m3u8''
   \<and> spec_host ''rtsp://:554/cam'' = []
   \<and> convertRTSPToMediaMTXHLS ''rtsp://:554/cam'' = Inr ''http://:8888/cam/index.m3u8''
   \<and> convertRTSPToMediaMTXHLS ''rtsp://:554/cam'' \<noteq> Inr ''rtsp://:554/cam''"
  by (simp add: convertRTSPToMediaMTXHLS_def startsWith_def spec_host_def
      idx_def or_default_def to_str_def)

text \<open>
  Claim C7, amended: the resolver never raises (it returns a string for every locator);
  a locator that matches neither the manifest pattern nor the protocol scheme, the empty
  string among them, is returned unchanged; and the result equals the input exactly when
  the locator contains \<^verbatim>\<open>.m3u8\<close> or does not start with \<^verbatim>\<open>rtsp://\<close>, so every locator with
  the scheme prefix and without the pattern is translated, well-formed or not.
\<close>

theorem resolver_total_fallback:
  "(\<exists>r. convertRTSPToMediaMTXHLS url = Inr r)
   \<and> (\<not> js_includes url ''.m3u8'' \<and> \<not> startsWith url ''rtsp://''
        \<longrightarrow> convertRTSPToMediaMTXHLS url = Inr url)
   \<and> convertRTSPToMediaMTXHLS [] = Inr []
   \<and> (convertRTSPToMediaMTXHLS url = Inr url
        \<longleftrightarrow> js_includes url ''.m3u8'' \<or> \<not> startsWith url ''rtsp://'')"
proof -
  have total: "\<exists>r. convertRTSPToMediaMTXHLS url = Inr r"
    using resolver_refines_spec [of url] by simp
  have empty: "convertRTSPToMediaMTXHLS [] = Inr []"
    by (simp add: convertRTSPToMediaMTXHLS_def startsWith_def)
  have same: "convertRTSPToMediaMTXHLS url = Inr url"
    if "js_includes url ''.m3u8'' \<or> \<not> startsWith url ''rtsp://''"
    using that by (auto simp: convertRTSPToMediaMTXHLS_def)
  have differs: "convertRTSPToMediaMTXHLS url \<noteq> Inr url"
    if "\<not> (js_includes url ''.m3u8'' \<or> \<not> startsWith url ''rtsp://'')"
  proof -
    from that obtain r where "url = ''rtsp://'' @ r"
      by (auto simp: startsWith_def prefix_def)
    then show ?thesis using resolver_translates [of url] that by simp
  qed
  from total empty same differs show ?thesis by blast
qed

text \<open>A locator that is no URL at all comes back unchanged.\<close>
theorem resolver_total_fallback_witness:
  "\<not> js_includes ''camera one'' ''.m3u8'' \<and> \<not> startsWith ''camera one'' ''rtsp://''
   \<and> convertRTSPToMediaMTXHLS ''camera one'' = Inr ''camera one''"
proof -
  have a: "\<not> js_includes ''camera one'' ''.m3u8'' \<and> \<not> startsWith ''camera one'' ''rtsp://''"
    by (simp add: startsWith_def)
  show ?thesis using a resolver_total_fallback [of "''camera one''"] by blast
qed

text \<open>
  Claim C9: on every locator that starts with \<^verbatim>\<open>rtsp://\<close> and does not contain \<^verbatim>\<open>.m3u8\<close>
  the MediaMTX resolver yields \<^verbatim>\<open>http://{host}:8888/{stream}/index.m3u8\<close> and the older
  resolver yields the constant proxy URL; the two resolvers return the same URL exactly on
  the locators that contain \<^verbatim>\<open>.m3u8\<close> or do not start with \<^verbatim>\<open>rtsp://\<close>, and there both
  return the locator unchanged.
\<close>
theorem resolvers_diverge:
  "(startsWith url ''rtsp://'' \<and> \<not> js_includes url ''.m3u8'' \<longrightarrow>
      convertRTSPToMediaMTXHLS url
        = Inr (''http://'' @ spec_host url @ '':8888/'' @ spec_stream url @ ''/index.m3u8'')
      \<and> convertToHLSUrl url = ''http://localhost:3001/hls/stream.m3u8'')
   \<and> (convertRTSPToMediaMTXHLS url = Inr (convertToHLSUrl url)
        \<longleftrightarrow> js_includes url ''.m3u8'' \<or> \<not> startsWith url ''rtsp://'')
   \<and> (js_includes url ''.m3u8'' \<or> \<not> startsWith url ''rtsp://'' \<longrightarrow>
        convertRTSPToMediaMTXHLS url = Inr url \<and> convertToHLSUrl url = url)"
proof (cases "startsWith url ''rtsp://'' \<and> \<not> js_includes url ''.m3u8''")
  case True
  then have c: "convertRTSPToMediaMTXHLS url
      = Inr (''http://'' @ spec_host url @ '':8888/'' @ spec_stream url @ ''/index.m3u8'')"
    using resolver_translates [of url] by simp
  have p: "convertToHLSUrl url = ''http://localhost:3001/hls/stream.m3u8''"
    using True by (simp add: convertToHLSUrl_def)
  have "(''http://'' @ spec_host url @ '':8888/'' @ spec_stream url) @ ''/index.m3u8''
          \<noteq> ''http://localhost:3001/hls/stream.m3u8''"
    by (rule mediamtx_url_not_proxy)
  then have "convertRTSPToMediaMTXHLS url \<noteq> Inr (convertToHLSUrl url)"
    unfolding c p by simp
  with True c p show ?thesis by simp
next
  case False
  then show ?thesis
    by (auto simp: convertRTSPToMediaMTXHLS_def convertToHLSUrl_def)
qed

text \<open>The two resolvers on \<^verbatim>\<open>rtsp://cam.local:554/front\<close>.\<close>
theorem resolvers_diverge_witness:
  "startsWith ''rtsp://cam.local:554/front'' ''rtsp://''
   \<and> \<not> js_includes ''rtsp://cam.local:554/front'' ''.m3u8''
   \<and> convertRTSPToMediaMTXHLS ''rtsp://cam.local:554/front''
       = Inr ''http://cam.local:8888/front/index.m3u8''
   \<and> convertToHLSUrl ''rtsp://cam.local:554/front'' = ''http://localhost:3001/hls/stream.m3u8''"
proof -
  have a: "startsWith ''rtsp://cam.local:554/front'' ''rtsp://''
           \<and> \<not> js_includes ''rtsp://cam.local:554/front'' ''.m3u8''"
    by (simp add: startsWith_def)
  show ?thesis
    using a resolvers_diverge [of "''rtsp://cam.local:554/front''"]
    by (simp add: spec_host_def spec_stream_def spec_last_component_def)
qed

text \<open>
  Claim C10: the manifest pattern is looked for anywhere in the locator and before the
  scheme is tested, so a locator that starts with \<^verbatim>\<open>rtsp://\<close> and contains \<^verbatim>\<open>.m3u8\<close> at
  any position is returned unchanged; and a locator with the scheme, without the pattern,
  that ends in a slash is translated with the default stream name \<^verbatim>\<open>stream\<close>.
\<close>
theorem manifest_check_precedes_translation:
  "(startsWith url ''rtsp://'' \<and> sublist ''.m3u8'' url \<longrightarrow>
      convertRTSPToMediaMTXHLS url = Inr url)
   \<and> (startsWith url ''rtsp://'' \<and> \<not> sublist ''.m3u8'' url \<and> last url = CHR ''/'' \<longrightarrow>
        convertRTSPToMediaMTXHLS url
          = Inr (''http://'' @ spec_host url @ '':8888/stream/index.m3u8''))"
proof (intro conjI impI)
  assume "startsWith url ''rtsp://'' \<and> sublist ''.m3u8'' url"
  then show "convertRTSPToMediaMTXHLS url = Inr url"
    by (simp add: convertRTSPToMediaMTXHLS_def js_includes_sublist)
next
  assume h: "startsWith url ''rtsp://'' \<and> \<not> sublist ''.m3u8'' url \<and> last url = CHR ''/''"
  then have "url \<noteq> []" by (auto simp: startsWith_def)
  with h have "spec_stream url = ''stream''"
    by (simp add: spec_stream_def spec_last_component_slash)
  with h resolver_translates [of url]
  show "convertRTSPToMediaMTXHLS url
          = Inr (''http://'' @ spec_host url @ '':8888/stream/index.m3u8'')"
    by (simp add: js_includes_sublist)
qed

text \<open>The locators \<^verbatim>\<open>rtsp://host/x.m3u8/extra\<close> and \<^verbatim>\<open>rtsp://host:554/live/\<close>.\<close>
theorem manifest_check_precedes_translation_witness:
  "(startsWith ''rtsp://host/x.m3u8/extra'' ''rtsp://''
      \<and> sublist ''.m3u8'' ''rtsp://host/x.m3u8/extra''
      \<and> convertRTSPToMediaMTXHLS ''rtsp://host/x.m3u8/extra'' = Inr ''rtsp://host/x.m3u8/extra'')
   \<and> (startsWith ''rtsp://host:554/live/'' ''rtsp://''
      \<and> \<not> sublist ''.m3u8'' ''rtsp://host:554/live/''
      \<and> last ''rtsp://host:554/live/'' = CHR ''/''
      \<and> convertRTSPToMediaMTXHLS ''rtsp://host:554/live/''
          = Inr ''http://host:8888/stream/index.m3u8'')"
proof -
  have a: "startsWith ''rtsp://host/x.m3u8/extra'' ''rtsp://''
           \<and> sublist ''.m3u8'' ''rtsp://host/x.m3u8/extra''"
    unfolding js_includes_sublist [symmetric] by (simp add: startsWith_def)
  have b: "startsWith ''rtsp://host:554/live/'' ''rtsp://''
           \<and> \<not> sublist ''.m3u8'' ''rtsp://host:554/live/''
           \<and> last ''rtsp://host:554/live/'' = CHR ''/''"
    unfolding js_includes_sublist [symmetric] by (simp add: startsWith_def)
  have c: "spec_host ''rtsp://host:554/live/'' = ''host''" by (simp add: spec_host_def)
  show ?thesis
    using a b manifest_check_precedes_translation [of "''rtsp://host/x.m3u8/extra''"]
      manifest_check_precedes_translation [of "''rtsp://host:554/live/''"]
    unfolding c by simp
qed

section \<open>The playback session\<close>

lemma cleanup_keeps:
  "nextClient (cleanup s) = nextClient s" "videoSrc (cleanup s) = videoSrc s"
  "nativeListeners (cleanup s) = nativeListeners s" "streamMode (cleanup s) = streamMode s"
  "isLoading (cleanup s) = isLoading s" "isPlaying (cleanup s) = isPlaying s"
  "error (cleanup s) = error s" "rtspUrl (cleanup s) = rtspUrl s"
  "hlsRef (cleanup s) = None"
  by (simp_all add: cleanup_def split: option.splits)

lemma session_ok_clients:
  "session_ok s \<Longrightarrow> clients (cleanup s) = []"
  by (cases "clients s") (auto simp: session_ok_def cleanup_def split: option.splits)

lemma session_ok_cleanup: "session_ok s \<Longrightarrow> session_ok (cleanup s)"
  using session_ok_clients [of s] by (simp add: session_ok_def cleanup_keeps)

lemma session_ok_load: "session_ok s \<Longrightarrow> session_ok (loadHLSStream rt url s)"
  using session_ok_clients [of s] session_ok_cleanup [of s]
  by (simp add: loadHLSStream_def Let_def session_ok_def cleanup_keeps)

lemma videoError_keeps:
  "clients (foldl (\<lambda>t u. t\<lparr> error := Some (safariMessage u), streamMode := ErrorMode,
                           isLoading := False \<rparr>) s us) = clients s
   \<and> hlsRef (foldl (\<lambda>t u. t\<lparr> error := Some (safariMessage u), streamMode := ErrorMode,
                           isLoading := False \<rparr>) s us) = hlsRef s
   \<and> nextClient (foldl (\<lambda>t u. t\<lparr> error := Some (safariMessage u), streamMode := ErrorMode,
                           isLoading := False \<rparr>) s us) = nextClient s
   \<and> videoSrc (foldl (\<lambda>t u. t\<lparr> error := Some (safariMessage u), streamMode := ErrorMode,
                           isLoading := False \<rparr>) s us) = videoSrc s
   \<and> nativeListeners (foldl (\<lambda>t u. t\<lparr> error := Some (safariMessage u), streamMode := ErrorMode,
                           isLoading := False \<rparr>) s us) = nativeListeners s
   \<and> (streamMode s = ErrorMode \<longrightarrow>
        streamMode (foldl (\<lambda>t u. t\<lparr> error := Some (safariMessage u), streamMode := ErrorMode,
                           isLoading := False \<rparr>) s us) = ErrorMode)"
  by (induction us arbitrary: s) simp_all

lemma videoEvent_keeps:
  "clients (videoEvent ev s) = clients s" "hlsRef (videoEvent ev s) = hlsRef s"
  "nextClient (videoEvent ev s) = nextClient s" "videoSrc (videoEvent ev s) = videoSrc s"
  "nativeListeners (videoEvent ev s) = nativeListeners s"
  "streamMode s = ErrorMode \<Longrightarrow> streamMode (videoEvent ev s) = ErrorMode"
  using videoError_keeps [of s "nativeListeners s"]
  by (cases ev; simp add: videoEvent_def)+

lemma hlsEvent_keeps:
  "clients (hlsEvent i ev s) = clients s" "hlsRef (hlsEvent i ev s) = hlsRef s"
  "nextClient (hlsEvent i ev s) = nextClient s" "videoSrc (hlsEvent i ev s) = videoSrc s"
  "nativeListeners (hlsEvent i ev s) = nativeListeners s"
  "streamMode s = ErrorMode \<Longrightarrow> streamMode (hlsEvent i ev s) = ErrorMode"
  by (cases ev; simp add: hlsEvent_def onHlsError_def split: option.splits)+

lemma togglePlay_keeps:
  "clients (togglePlay rt ok s) = clients s" "hlsRef (togglePlay rt ok s) = hlsRef s"
  "nextClient (togglePlay rt ok s) = nextClient s"
  "nativeListeners (togglePlay rt ok s) = nativeListeners s"
  "streamMode (togglePlay rt ok s) = streamMode s"
  by (simp_all add: togglePlay_def)

lemma toggleMute_keeps:
  "clients (toggleMute rt s) = clients s" "hlsRef (toggleMute rt s) = hlsRef s"
  "nextClient (toggleMute rt s) = nextClient s"
  "nativeListeners (toggleMute rt s) = nativeListeners s"
  "streamMode (toggleMute rt s) = streamMode s"
  by (simp_all add: toggleMute_def)

lemma rtspUrlEffect_resolved:
  "rtspUrlEffect rt s =
     Inr (if rtspUrl s \<noteq> [] then loadHLSStream rt (spec_resolve (rtspUrl s)) s else s)"
  by (simp add: rtspUrlEffect_def resolver_refines_spec)

lemma retryStream_resolved:
  "retryStream rt s =
     Inr (if rtspUrl s \<noteq> []
          then loadHLSStream rt (spec_resolve (rtspUrl s)) (s\<lparr> error := None \<rparr>)
          else s\<lparr> error := None \<rparr>)"
  by (simp add: retryStream_def Let_def resolver_refines_spec)

lemma session_ok_fields:
  "clients t = clients s \<Longrightarrow> hlsRef t = hlsRef s \<Longrightarrow> nextClient t = nextClient s \<Longrightarrow>
   session_ok s \<Longrightarrow> session_ok t"
  by (simp add: session_ok_def)

lemma step_total: "\<exists>s'. step rt a s = Inr s'"
  by (cases a) (simp_all add: step_def setLocator_def rtspUrlEffect_resolved retryStream_resolved)

lemma step_session_ok:
  assumes "session_ok s" and "step rt a s = Inr s'"
  shows "session_ok s'"
proof (cases a)
  case (SetLocator url)
  have "session_ok ((cleanup s)\<lparr> rtspUrl := url \<rparr>)"
    using session_ok_cleanup [OF assms(1)] by (simp add: session_ok_def)
  then show ?thesis
    using assms SetLocator session_ok_load
    by (auto simp: step_def setLocator_def rtspUrlEffect_resolved split: if_splits)
next
  case (Start hlsUrl)
  then show ?thesis using assms session_ok_load by (auto simp: step_def)
next
  case Unmount
  then show ?thesis using assms session_ok_cleanup by (auto simp: step_def)
next
  case ClickRetry
  have "session_ok (s\<lparr> error := None \<rparr>)" using assms(1) by (simp add: session_ok_def)
  then show ?thesis
    using assms ClickRetry session_ok_load
    by (auto simp: step_def retryStream_resolved split: if_splits)
next
  case (ClickPlay ok)
  then show ?thesis
    using assms session_ok_fields [of "togglePlay rt ok s" s]
    by (auto simp: step_def togglePlay_keeps split: if_splits)
next
  case ClickMute
  then show ?thesis
    using assms session_ok_fields [of "toggleMute rt s" s]
    by (auto simp: step_def toggleMute_keeps)
next
  case (HlsEvent i ev)
  then show ?thesis
    using assms session_ok_fields [of "hlsEvent i ev s" s]
    by (auto simp: step_def hlsEvent_keeps)
next
  case (VideoEvent ev)
  then show ?thesis
    using assms session_ok_fields [of "videoEvent ev s" s]
    by (auto simp: step_def videoEvent_keeps)
qed

lemma run_session_ok:
  "session_ok s \<Longrightarrow> \<exists>s'. run rt acts s = Inr s' \<and> session_ok s'"
proof (induction acts arbitrary: s)
  case Nil
  then show ?case by simp
next
  case (Cons a acts)
  obtain t where t: "step rt a s = Inr t" using step_total by blast
  with Cons.prems have "session_ok t" by (rule step_session_ok)
  from Cons.IH [OF this] show ?case using t by simp
qed

lemma session_ok_init: "session_ok init"
  by (simp add: session_ok_def init_def)

lemma load_releases_previous:
  assumes "session_ok s" and "videoMounted rt" and "hlsRef s = Some h"
  shows "h \<notin> fst ` set (clients (loadHLSStream rt url s))"
proof -
  have "clients s \<noteq> []" using assms by (auto simp: session_ok_def)
  then have "h < nextClient s"
    using assms by (cases "clients s") (auto simp: session_ok_def)
  then show ?thesis
    using session_ok_clients [OF assms(1)] assms(2)
    by (simp add: loadHLSStream_def Let_def cleanup_keeps)
qed

text \<open>
  Claim C1: after any run of the component from its initial state (starts, locator
  changes, retries, callbacks, in any order) at most one Hls client is alive, and it is the
  one \<^verbatim>\<open>hlsRef\<close> holds; \<^verbatim>\<open>cleanup\<close> leaves no client and a null reference; and a further
  load on a mounted surface destroys the client referenced before it constructs the next,
  so two loads in immediate succession leave at most one client. (A load on an unmounted
  surface returns at once and constructs nothing.)
\<close>
theorem single_active_client:
  "\<exists>s. run rt acts init = Inr s
       \<and> length (clients s) \<le> 1
       \<and> map fst (clients s) = (case hlsRef s of None \<Rightarrow> [] | Some h \<Rightarrow> [h])
       \<and> clients (cleanup s) = [] \<and> hlsRef (cleanup s) = None
       \<and> (\<forall>url. length (clients (loadHLSStream rt url s)) \<le> 1
                \<and> (\<forall>h. videoMounted rt \<and> hlsRef s = Some h
                         \<longrightarrow> h \<notin> fst ` set (clients (loadHLSStream rt url s))))"
proof -
  obtain s where s: "run rt acts init = Inr s" "session_ok s"
    using run_session_ok [OF session_ok_init] by blast
  have one: "length (clients t) \<le> 1" if "session_ok t" for t
  proof -
    have "length (map fst (clients t)) \<le> 1"
      using that unfolding session_ok_def by (auto split: option.splits)
    then show ?thesis by simp
  qed
  have "length (clients (loadHLSStream rt url s)) \<le> 1" for url
    using one [OF session_ok_load [OF s(2)]] .
  moreover have "map fst (clients s) = (case hlsRef s of None \<Rightarrow> [] | Some h \<Rightarrow> [h])"
    using s(2) by (simp add: session_ok_def)
  ultimately show ?thesis
    using s one [OF s(2)] session_ok_clients [OF s(2)] load_releases_previous [OF s(2)]
    by (auto simp: cleanup_keeps)
qed

lemmas session_eval =
  step_def loadHLSStream_def cleanup_def init_def hlsEvent_def onHlsError_def
  fatalMessage_def videoEvent_def togglePlay_def errorShown_def playDisabled_def Let_def

text \<open>Two starts in succession on a runtime with the Hls library: the first client is
  gone after the second start.\<close>
theorem single_active_client_witness:
  "videoMounted \<lparr> videoMounted = True, hlsSupported = True, nativeHls = False \<rparr>
   \<and> (\<exists>s. run \<lparr> videoMounted = True, hlsSupported = True, nativeHls = False \<rparr>
             [Start ''http://a:8888/one/index.m3u8''] init = Inr s
          \<and> hlsRef s = Some 0
          \<and> 0 \<notin> fst ` set (clients (loadHLSStream
                 \<lparr> videoMounted = True, hlsSupported = True, nativeHls = False \<rparr>
                 ''http://a:8888/two/index.m3u8'' s))
          \<and> length (clients (loadHLSStream
                 \<lparr> videoMounted = True, hlsSupported = True, nativeHls = False \<rparr>
                 ''http://a:8888/two/index.m3u8'' s)) \<le> 1)"
proof -
  let ?rt = "\<lparr> videoMounted = True, hlsSupported = True, nativeHls = False \<rparr>"
  obtain s where s: "run ?rt [Start ''http://a:8888/one/index.m3u8''] init = Inr s"
    and p: "\<forall>url. length (clients (loadHLSStream ?rt url s)) \<le> 1
                \<and> (\<forall>h. videoMounted ?rt \<and> hlsRef s = Some h
                         \<longrightarrow> h \<notin> fst ` set (clients (loadHLSStream ?rt url s)))"
    using single_active_client [of ?rt "[Start ''http://a:8888/one/index.m3u8'']"] by blast
  have h: "hlsRef s = Some 0" using s by (auto simp: session_eval)
  have m: "videoMounted ?rt" by simp
  from p m h have "0 \<notin> fst ` set (clients (loadHLSStream ?rt ''http://a:8888/two/index.m3u8'' s))"
    by blast
  with p s h m show ?thesis by blast
qed

lemma js_includes_middle: "js_includes (a @ b @ c) b"
  by (simp add: js_includes_sublist)

lemma js_includes_end: "js_includes (a @ b) b"
  by (simp add: js_includes_sublist)

text \<open>
  Claim C3, as stated, at a fatal media error of a client that loaded
  \<^verbatim>\<open>http://host:8888/mystream/index.m3u8\<close>: the message set by the handler (line 132) does
  not contain the manifest URL.
\<close>
theorem fatal_media_error_counterexample:
  "fatal \<lparr> fatal = True, errType = MediaError, details = ''fragParsingError'' \<rparr>
   \<and> map_of (clients (loadHLSStream \<lparr> videoMounted = True, hlsSupported = True, nativeHls = False \<rparr>
               ''http://host:8888/mystream/index.m3u8'' init)) 0
       = Some ''http://host:8888/mystream/index.m3u8''
   \<and> error (hlsEvent 0
        (ERROR \<lparr> fatal = True, errType = MediaError, details = ''fragParsingError'' \<rparr>)
        (loadHLSStream \<lparr> videoMounted = True, hlsSupported = True, nativeHls = False \<rparr>
           ''http://host:8888/mystream/index.m3u8'' init))
     = Some ''Media error in MediaMTX HLS stream: fragParsingError. Check RTSP source and MediaMTX configuration.''
   \<and> \<not> js_includes
         ''Media error in MediaMTX HLS stream: fragParsingError. Check RTSP source and MediaMTX configuration.''
         ''http://host:8888/mystream/index.m3u8''"
  by (simp add: session_eval)

text \<open>
  Claim C3, amended: for every fatal error event of a live client (network, media or any
  other type) the stream mode becomes \<^verbatim>\<open>'error'\<close>, loading ends, and the message is
  non-empty and contains the error details; for a fatal network error the message also
  contains the manifest URL the client loaded.
\<close>
theorem fatal_error_surfaces:
  "map_of (clients s) i = Some hlsUrl \<Longrightarrow> fatal d \<Longrightarrow>
   streamMode (hlsEvent i (ERROR d) s) = ErrorMode
   \<and> \<not> isLoading (hlsEvent i (ERROR d) s)
   \<and> (\<exists>m. error (hlsEvent i (ERROR d) s) = Some m \<and> m \<noteq> []
          \<and> js_includes m (details d)
          \<and> (errType d = NetworkError \<longrightarrow> js_includes m hlsUrl))"
proof -
  assume c: "map_of (clients s) i = Some hlsUrl" and f: "fatal d"
  have e: "hlsEvent i (ERROR d) s
      = s\<lparr> error := Some (fatalMessage hlsUrl d), streamMode := ErrorMode, isLoading := False \<rparr>"
    using c f by (simp add: hlsEvent_def onHlsError_def)
  have ne: "fatalMessage hlsUrl d \<noteq> []"
    by (cases "errType d") (simp_all add: fatalMessage_def)
  have det: "js_includes (fatalMessage hlsUrl d) (details d)"
  proof (cases "errType d")
    case NetworkError
    then show ?thesis
      using js_includes_middle [of "''Network error loading MediaMTX HLS stream: ''" "details d"
          "''. Check if MediaMTX is running and accessible at: '' @ hlsUrl"]
      by (simp add: fatalMessage_def)
  next
    case MediaError
    then show ?thesis
      using js_includes_middle [of "''Media error in MediaMTX HLS stream: ''" "details d"
          "''. Check RTSP source and MediaMTX configuration.''"]
      by (simp add: fatalMessage_def)
  next
    case KeySystemError
    then show ?thesis
      using js_includes_end [of "''Fatal MediaMTX HLS error: ''" "details d"]
      by (simp add: fatalMessage_def)
  next
    case MuxError
    then show ?thesis
      using js_includes_end [of "''Fatal MediaMTX HLS error: ''" "details d"]
      by (simp add: fatalMessage_def)
  next
    case OtherError
    then show ?thesis
      using js_includes_end [of "''Fatal MediaMTX HLS error: ''" "details d"]
      by (simp add: fatalMessage_def)
  qed
  have url: "errType d = NetworkError \<longrightarrow> js_includes (fatalMessage hlsUrl d) hlsUrl"
    using js_includes_end [of "''Network error loading MediaMTX HLS stream: '' @ details d
          @ ''. Check if MediaMTX is running and accessible at: ''" hlsUrl]
    by (simp add: fatalMessage_def)
  show ?thesis unfolding e using ne det url by simp
qed

text \<open>A fatal network error while the manifest is loading.\<close>
theorem fatal_error_surfaces_witness:
  "map_of (clients (loadHLSStream \<lparr> videoMounted = True, hlsSupported = True, nativeHls = False \<rparr>
               ''http://host:8888/mystream/index.m3u8'' init)) 0
       = Some ''http://host:8888/mystream/index.m3u8''
   \<and> fatal \<lparr> fatal = True, errType = NetworkError, details = ''manifestLoadError'' \<rparr>
   \<and> streamMode (hlsEvent 0
        (ERROR \<lparr> fatal = True, errType = NetworkError, details = ''manifestLoadError'' \<rparr>)
        (loadHLSStream \<lparr> videoMounted = True, hlsSupported = True, nativeHls = False \<rparr>
           ''http://host:8888/mystream/index.m3u8'' init)) = ErrorMode
   \<and> (\<exists>m. error (hlsEvent 0
        (ERROR \<lparr> fatal = True, errType = NetworkError, details = ''manifestLoadError'' \<rparr>)
        (loadHLSStream \<lparr> videoMounted = True, hlsSupported = True, nativeHls = False \<rparr>
           ''http://host:8888/mystream/index.m3u8'' init)) = Some m
        \<and> js_includes m ''http://host:8888/mystream/index.m3u8'')"
proof -
  let ?s = "loadHLSStream \<lparr> videoMounted = True, hlsSupported = True, nativeHls = False \<rparr>
               ''http://host:8888/mystream/index.m3u8'' init"
  let ?d = "\<lparr> fatal = True, errType = NetworkError, details = ''manifestLoadError'' \<rparr>"
  have a: "map_of (clients ?s) 0 = Some ''http://host:8888/mystream/index.m3u8''"
    by (simp add: loadHLSStream_def cleanup_def init_def Let_def)
  have b: "fatal ?d" by simp
  have c: "errType ?d = NetworkError" by simp
  show ?thesis using a b c fatal_error_surfaces [OF a b] by blast
qed

lemma run_total: "\<exists>s'. run rt acts s = Inr s'"
proof (induction acts arbitrary: s)
  case Nil
  show ?case by simp
next
  case (Cons a acts)
  obtain t where "step rt a s = Inr t" using step_total by blast
  with Cons.IH [of t] show ?case by simp
qed

lemma pristine_step:
  assumes "pristine s" and "\<not> (videoMounted rt \<and> startsLoad a)"
  shows "\<exists>s'. step rt a s = Inr s' \<and> pristine s'"
proof (cases a)
  case (SetLocator url)
  then show ?thesis using assms
    by (auto simp: step_def setLocator_def rtspUrlEffect_resolved pristine_def cleanup_def
        loadHLSStream_def)
next
  case (Start hlsUrl)
  then show ?thesis using assms by (auto simp: step_def loadHLSStream_def)
next
  case Unmount
  then show ?thesis using assms by (auto simp: step_def pristine_def cleanup_def)
next
  case ClickRetry
  then show ?thesis using assms by (auto simp: step_def pristine_def errorShown_def)
next
  case (ClickPlay ok)
  then show ?thesis using assms by (auto simp: step_def pristine_def togglePlay_def)
next
  case ClickMute
  then show ?thesis using assms by (auto simp: step_def pristine_def toggleMute_def)
next
  case (HlsEvent i ev)
  then show ?thesis using assms by (auto simp: step_def pristine_def hlsEvent_def)
next
  case (VideoEvent ev)
  then show ?thesis using assms
    by (cases ev) (auto simp: step_def pristine_def videoEvent_def)
qed

lemma pristine_run:
  "pristine s \<Longrightarrow>
   \<exists>s'. run rt acts s = Inr s'
        \<and> (streamMode s' = ErrorMode \<longrightarrow> videoMounted rt \<and> (\<exists>a \<in> set acts. startsLoad a))"
proof (induction acts arbitrary: s)
  case Nil
  then show ?case by (simp add: pristine_def)
next
  case (Cons a acts)
  show ?case
  proof (cases "videoMounted rt \<and> startsLoad a")
    case True
    obtain s' where "run rt (a # acts) s = Inr s'" using run_total by blast
    with True show ?thesis by auto
  next
    case False
    with Cons.prems obtain t where t: "step rt a s = Inr t" "pristine t"
      using pristine_step by blast
    from Cons.IH [OF t(2)] t(1) show ?thesis by auto
  qed
qed

lemma pristine_init: "pristine init"
  by (simp add: pristine_def init_def)

text \<open>
  Claim C4, as stated: in the initial state (not loading, not playing, no client, play
  button enabled) a rejected \<^verbatim>\<open>play()\<close> makes \<^verbatim>\<open>togglePlay\<close> set the error; and a fatal
  error that arrives after the manifest was parsed sets the error mode in a state that is
  neither loading nor playing.
\<close>
theorem errored_without_load_counterexample:
  "isLoading init = False \<and> isPlaying init = False \<and> hlsRef init = None
   \<and> error init = None \<and> \<not> playDisabled init
   \<and> step \<lparr> videoMounted = True, hlsSupported = True, nativeHls = False \<rparr> (ClickPlay False) init
       = Inr (init\<lparr> error := Some playFailedMessage \<rparr>)
   \<and> isLoading (hlsEvent 0 MANIFEST_PARSED
        (loadHLSStream \<lparr> videoMounted = True, hlsSupported = True, nativeHls = False \<rparr>
           ''http://host:8888/mystream/index.m3u8'' init)) = False
   \<and> isPlaying (hlsEvent 0 MANIFEST_PARSED
        (loadHLSStream \<lparr> videoMounted = True, hlsSupported = True, nativeHls = False \<rparr>
           ''http://host:8888/mystream/index.m3u8'' init)) = False
   \<and> streamMode (hlsEvent 0 MANIFEST_PARSED
        (loadHLSStream \<lparr> videoMounted = True, hlsSupported = True, nativeHls = False \<rparr>
           ''http://host:8888/mystream/index.m3u8'' init)) = HlsMode
   \<and> streamMode (hlsEvent 0
        (ERROR \<lparr> fatal = True, errType = NetworkError, details = ''fragLoadError'' \<rparr>)
        (hlsEvent 0 MANIFEST_PARSED
          (loadHLSStream \<lparr> videoMounted = True, hlsSupported = True, nativeHls = False \<rparr>
             ''http://host:8888/mystream/index.m3u8'' init))) = ErrorMode"
  by (simp add: session_eval)

text \<open>Which single steps take the session from the live mode into the error mode.\<close>

lemma error_entry_step:
  assumes "step rt a s = Inr s'" and "streamMode s = HlsMode" and "streamMode s' = ErrorMode"
  shows "(videoMounted rt \<and> startsLoad a \<and> \<not> hlsSupported rt \<and> \<not> nativeHls rt)
         \<or> (\<exists>i d. a = HlsEvent i (ERROR d) \<and> fatal d \<and> i \<in> fst ` set (clients s))
         \<or> (a = VideoEvent VError \<and> nativeListeners s \<noteq> [])"
proof (cases a)
  case (SetLocator url)
  then show ?thesis using assms
    by (auto simp: step_def setLocator_def rtspUrlEffect_resolved loadHLSStream_def Let_def
        cleanup_keeps split: if_splits)
next
  case (Start hlsUrl)
  then show ?thesis using assms
    by (auto simp: step_def loadHLSStream_def Let_def cleanup_keeps split: if_splits)
next
  case Unmount
  then show ?thesis using assms by (auto simp: step_def cleanup_keeps)
next
  case ClickRetry
  then show ?thesis using assms by (auto simp: step_def errorShown_def)
next
  case (ClickPlay ok)
  then show ?thesis using assms by (auto simp: step_def togglePlay_keeps split: if_splits)
next
  case ClickMute
  then show ?thesis using assms by (auto simp: step_def toggleMute_keeps)
next
  case (HlsEvent i ev)
  show ?thesis
  proof (cases "map_of (clients s) i")
    case None
    then show ?thesis using assms HlsEvent by (auto simp: step_def hlsEvent_def)
  next
    case (Some hlsUrl)
    then have "(i, hlsUrl) \<in> set (clients s)" by (rule map_of_SomeD)
    then have "i \<in> fst ` set (clients s)" by force
    then show ?thesis using assms HlsEvent Some
      by (cases ev) (auto simp: step_def hlsEvent_def onHlsError_def split: if_splits)
  qed
next
  case (VideoEvent ev)
  then show ?thesis using assms
    by (cases ev) (auto simp: step_def videoEvent_def split: if_splits)
qed

text \<open>
  Claim C4, amended: the error mode is only ever entered within a session that a load
  attempt has established, never directly from Idle. A step that takes \<^verbatim>\<open>streamMode\<close> from
  \<^verbatim>\<open>'hls'\<close> to \<^verbatim>\<open>'error'\<close> is a load on a mounted surface without any HLS capability
  (\<^verbatim>\<open>loadHLSStream\<close> has marked the attempt as loading before it tests the capabilities), a
  fatal error callback of a live client, or an error event of the video element with a
  registered native listener; such a callback may arrive in any state of the session,
  loading, ready, playing or paused. In a state without client and listener, no callback
  and no control other than a load sets the error mode, and the state stays without
  session; hence in every run from the initial state the error mode implies an earlier
  load attempt on a mounted surface.
\<close>

theorem error_mode_entered_only_within_session:
  "(step rt a s = Inr s' \<and> streamMode s = HlsMode \<and> streamMode s' = ErrorMode \<longrightarrow>
      (videoMounted rt \<and> startsLoad a \<and> \<not> hlsSupported rt \<and> \<not> nativeHls rt)
      \<or> (\<exists>i d. a = HlsEvent i (ERROR d) \<and> fatal d \<and> i \<in> fst ` set (clients s))
      \<or> (a = VideoEvent VError \<and> nativeListeners s \<noteq> []))
   \<and> (pristine s \<and> \<not> (videoMounted rt \<and> startsLoad a) \<longrightarrow>
        (\<exists>t. step rt a s = Inr t \<and> pristine t \<and> streamMode t = HlsMode))
   \<and> (\<exists>t. run rt acts init = Inr t
          \<and> (streamMode t = ErrorMode \<longrightarrow> videoMounted rt \<and> (\<exists>b \<in> set acts. startsLoad b)))"
proof (intro conjI impI)
  assume "step rt a s = Inr s' \<and> streamMode s = HlsMode \<and> streamMode s' = ErrorMode"
  then show "(videoMounted rt \<and> startsLoad a \<and> \<not> hlsSupported rt \<and> \<not> nativeHls rt)
      \<or> (\<exists>i d. a = HlsEvent i (ERROR d) \<and> fatal d \<and> i \<in> fst ` set (clients s))
      \<or> (a = VideoEvent VError \<and> nativeListeners s \<noteq> [])"
    using error_entry_step [of rt a s s'] by blast
next
  assume "pristine s \<and> \<not> (videoMounted rt \<and> startsLoad a)"
  then obtain t where "step rt a s = Inr t" "pristine t"
    using pristine_step [of s rt a] by blast
  then show "\<exists>t. step rt a s = Inr t \<and> pristine t \<and> streamMode t = HlsMode"
    by (auto simp: pristine_def)
next
  show "\<exists>t. run rt acts init = Inr t
          \<and> (streamMode t = ErrorMode \<longrightarrow> videoMounted rt \<and> (\<exists>b \<in> set acts. startsLoad b))"
    using pristine_run [OF pristine_init] .
qed

text \<open>A fatal error after the manifest was parsed; a rejected play in the initial state;
  a start on a runtime without any HLS support.\<close>

theorem error_mode_entered_only_within_session_witness:
  "(step \<lparr> videoMounted = True, hlsSupported = True, nativeHls = False \<rparr>
      (HlsEvent 0 (ERROR \<lparr> fatal = True, errType = NetworkError, details = ''fragLoadError'' \<rparr>))
      (hlsEvent 0 MANIFEST_PARSED
        (loadHLSStream \<lparr> videoMounted = True, hlsSupported = True, nativeHls = False \<rparr>
           ''http://host:8888/mystream/index.m3u8'' init))
     = Inr (hlsEvent 0
        (ERROR \<lparr> fatal = True, errType = NetworkError, details = ''fragLoadError'' \<rparr>)
        (hlsEvent 0 MANIFEST_PARSED
          (loadHLSStream \<lparr> videoMounted = True, hlsSupported = True, nativeHls = False \<rparr>
             ''http://host:8888/mystream/index.m3u8'' init)))
    \<and> streamMode (hlsEvent 0 MANIFEST_PARSED
        (loadHLSStream \<lparr> videoMounted = True, hlsSupported = True, nativeHls = False \<rparr>
           ''http://host:8888/mystream/index.m3u8'' init)) = HlsMode
    \<and> streamMode (hlsEvent 0
        (ERROR \<lparr> fatal = True, errType = NetworkError, details = ''fragLoadError'' \<rparr>)
        (hlsEvent 0 MANIFEST_PARSED
          (loadHLSStream \<lparr> videoMounted = True, hlsSupported = True, nativeHls = False \<rparr>
             ''http://host:8888/mystream/index.m3u8'' init))) = ErrorMode
    \<and> 0 \<in> fst ` set (clients (hlsEvent 0 MANIFEST_PARSED
        (loadHLSStream \<lparr> videoMounted = True, hlsSupported = True, nativeHls = False \<rparr>
           ''http://host:8888/mystream/index.m3u8'' init))))
   \<and> (pristine init
      \<and> \<not> (videoMounted \<lparr> videoMounted = True, hlsSupported = True, nativeHls = False \<rparr>
             \<and> startsLoad (ClickPlay False))
      \<and> (\<exists>t. step \<lparr> videoMounted = True, hlsSupported = True, nativeHls = False \<rparr>
                (ClickPlay False) init = Inr t \<and> pristine t \<and> streamMode t = HlsMode))
   \<and> (\<exists>t. run \<lparr> videoMounted = True, hlsSupported = False, nativeHls = False \<rparr>
             [Start ''http://host:8888/mystream/index.m3u8''] init = Inr t
          \<and> streamMode t = ErrorMode
          \<and> videoMounted \<lparr> videoMounted = True, hlsSupported = False, nativeHls = False \<rparr>
          \<and> (\<exists>b \<in> set [Start ''http://host:8888/mystream/index.m3u8'']. startsLoad b))"
proof -
  let ?rt = "\<lparr> videoMounted = True, hlsSupported = True, nativeHls = False \<rparr>"
  let ?ru = "\<lparr> videoMounted = True, hlsSupported = False, nativeHls = False \<rparr>"
  let ?d = "\<lparr> fatal = True, errType = NetworkError, details = ''fragLoadError'' \<rparr>"
  let ?r = "hlsEvent 0 MANIFEST_PARSED
              (loadHLSStream ?rt ''http://host:8888/mystream/index.m3u8'' init)"
  let ?acts = "[Start ''http://host:8888/mystream/index.m3u8'']"
  have s1: "step ?rt (HlsEvent 0 (ERROR ?d)) ?r = Inr (hlsEvent 0 (ERROR ?d) ?r)"
    by (simp add: step_def)
  have s2: "streamMode ?r = HlsMode" by (simp add: session_eval)
  have s3: "streamMode (hlsEvent 0 (ERROR ?d) ?r) = ErrorMode" by (simp add: session_eval)
  have "(videoMounted ?rt \<and> startsLoad (HlsEvent 0 (ERROR ?d)) \<and> \<not> hlsSupported ?rt
           \<and> \<not> nativeHls ?rt)
        \<or> (\<exists>i d. HlsEvent 0 (ERROR ?d) = HlsEvent i (ERROR d) \<and> fatal d
               \<and> i \<in> fst ` set (clients ?r))
        \<or> (HlsEvent 0 (ERROR ?d) = VideoEvent VError \<and> nativeListeners ?r \<noteq> [])"
    using s1 s2 s3
      error_mode_entered_only_within_session
        [of ?rt "HlsEvent 0 (ERROR ?d)" ?r "hlsEvent 0 (ERROR ?d) ?r" "[]"]
    by blast
  then have a: "0 \<in> fst ` set (clients ?r)" by auto
  have p: "pristine init \<and> \<not> (videoMounted ?rt \<and> startsLoad (ClickPlay False))"
    by (simp add: pristine_def init_def)
  then have b: "\<exists>t. step ?rt (ClickPlay False) init = Inr t \<and> pristine t \<and> streamMode t = HlsMode"
    using error_mode_entered_only_within_session [of ?rt "ClickPlay False" init init "[]"]
    by blast
  obtain t where t: "run ?ru ?acts init = Inr t"
    and q: "streamMode t = ErrorMode \<longrightarrow> videoMounted ?ru \<and> (\<exists>b \<in> set ?acts. startsLoad b)"
    using error_mode_entered_only_within_session [of ?ru "ClickMute" init init ?acts] by blast
  have m: "streamMode t = ErrorMode" using t by (auto simp: session_eval)
  with q t have c: "\<exists>t. run ?ru ?acts init = Inr t \<and> streamMode t = ErrorMode
      \<and> videoMounted ?ru \<and> (\<exists>b \<in> set ?acts. startsLoad b)"
    by blast
  from s1 s2 s3 a p b c show ?thesis by blast
qed

lemma callback_step:
  assumes "isCallback a"
  shows "\<exists>t. step rt a s = Inr t \<and> hlsRef t = hlsRef s \<and> clients t = clients s
             \<and> videoSrc t = videoSrc s \<and> nativeListeners t = nativeListeners s
             \<and> nextClient t = nextClient s
             \<and> (streamMode s = ErrorMode \<longrightarrow> streamMode t = ErrorMode)"
  using assms by (cases a) (simp_all add: step_def hlsEvent_keeps videoEvent_keeps)

lemma callbacks_run:
  "list_all isCallback evs \<Longrightarrow>
   \<exists>t. run rt evs s = Inr t \<and> hlsRef t = hlsRef s \<and> clients t = clients s
       \<and> videoSrc t = videoSrc s \<and> nativeListeners t = nativeListeners s
       \<and> nextClient t = nextClient s
       \<and> (streamMode s = ErrorMode \<longrightarrow> streamMode t = ErrorMode)"
proof (induction evs arbitrary: s)
  case Nil
  show ?case by simp
next
  case (Cons a evs)
  then have "isCallback a" and rest: "list_all isCallback evs" by simp_all
  from callback_step [OF this(1), of rt s] obtain m where m: "step rt a s = Inr m"
    "hlsRef m = hlsRef s" "clients m = clients s" "videoSrc m = videoSrc s"
    "nativeListeners m = nativeListeners s" "nextClient m = nextClient s"
    "streamMode s = ErrorMode \<longrightarrow> streamMode m = ErrorMode"
    by blast
  from Cons.IH [OF rest, of m] m show ?case by auto
qed

text \<open>
  Claim C5: a load on a mounted surface selects in order: with the Hls library supported,
  a new client is constructed, referenced and given the URL, and the native path is not
  touched; otherwise, with native support, the URL becomes the video source and no client
  is referenced; with neither, the load ends at once in the error mode with the
  capability message, no client and no listener, and no sequence of callbacks afterwards
  starts a load again or leaves the error mode.
\<close>
theorem capability_selection:
  assumes "videoMounted rt"
  shows
   "(hlsSupported rt \<longrightarrow>
       hlsRef (loadHLSStream rt url s) = Some (nextClient s)
       \<and> last (clients (loadHLSStream rt url s)) = (nextClient s, url)
       \<and> videoSrc (loadHLSStream rt url s) = videoSrc s
       \<and> nativeListeners (loadHLSStream rt url s) = nativeListeners s
       \<and> streamMode (loadHLSStream rt url s) = HlsMode
       \<and> isLoading (loadHLSStream rt url s) \<and> error (loadHLSStream rt url s) = None)
    \<and> (\<not> hlsSupported rt \<and> nativeHls rt \<longrightarrow>
       hlsRef (loadHLSStream rt url s) = None
       \<and> clients (loadHLSStream rt url s) = clients (cleanup s)
       \<and> videoSrc (loadHLSStream rt url s) = Some url
       \<and> nativeListeners (loadHLSStream rt url s) = nativeListeners s @ [url]
       \<and> streamMode (loadHLSStream rt url s) = HlsMode
       \<and> isLoading (loadHLSStream rt url s) \<and> error (loadHLSStream rt url s) = None)
    \<and> (\<not> hlsSupported rt \<and> \<not> nativeHls rt \<longrightarrow>
       streamMode (loadHLSStream rt url s) = ErrorMode
       \<and> error (loadHLSStream rt url s) = Some unsupportedMessage
       \<and> unsupportedMessage \<noteq> []
       \<and> \<not> isLoading (loadHLSStream rt url s)
       \<and> hlsRef (loadHLSStream rt url s) = None
       \<and> clients (loadHLSStream rt url s) = clients (cleanup s)
       \<and> videoSrc (loadHLSStream rt url s) = videoSrc s
       \<and> nativeListeners (loadHLSStream rt url s) = nativeListeners s
       \<and> (\<forall>evs. list_all isCallback evs \<longrightarrow>
             (\<exists>t. run rt evs (loadHLSStream rt url s) = Inr t
                  \<and> streamMode t = ErrorMode \<and> hlsRef t = None
                  \<and> clients t = clients (cleanup s)
                  \<and> videoSrc t = videoSrc s
                  \<and> nativeListeners t = nativeListeners s)))"
proof (intro conjI impI)
  assume "\<not> hlsSupported rt \<and> \<not> nativeHls rt"
  then have L: "loadHLSStream rt url s
      = (cleanup s)\<lparr> isLoading := False, error := Some unsupportedMessage,
                     streamMode := ErrorMode \<rparr>"
    using assms by (simp add: loadHLSStream_def Let_def)
  show "\<forall>evs. list_all isCallback evs \<longrightarrow>
             (\<exists>t. run rt evs (loadHLSStream rt url s) = Inr t
                  \<and> streamMode t = ErrorMode \<and> hlsRef t = None
                  \<and> clients t = clients (cleanup s)
                  \<and> videoSrc t = videoSrc s
                  \<and> nativeListeners t = nativeListeners s)"
  proof (intro allI impI)
    fix evs assume "list_all isCallback evs"
    from callbacks_run [OF this, of rt "loadHLSStream rt url s"]
    show "\<exists>t. run rt evs (loadHLSStream rt url s) = Inr t
                  \<and> streamMode t = ErrorMode \<and> hlsRef t = None
                  \<and> clients t = clients (cleanup s)
                  \<and> videoSrc t = videoSrc s
                  \<and> nativeListeners t = nativeListeners s"
      unfolding L by (auto simp: cleanup_keeps)
  qed
qed (use assms in \<open>simp_all add: loadHLSStream_def Let_def cleanup_keeps unsupportedMessage_def\<close>)

text \<open>A runtime with neither capability.\<close>
theorem capability_selection_witness:
  "videoMounted \<lparr> videoMounted = True, hlsSupported = False, nativeHls = False \<rparr>
   \<and> \<not> hlsSupported \<lparr> videoMounted = True, hlsSupported = False, nativeHls = False \<rparr>
   \<and> \<not> nativeHls \<lparr> videoMounted = True, hlsSupported = False, nativeHls = False \<rparr>
   \<and> list_all isCallback [VideoEvent VCanPlay, HlsEvent 0 MANIFEST_PARSED]
   \<and> streamMode (loadHLSStream \<lparr> videoMounted = True, hlsSupported = False, nativeHls = False \<rparr>
        ''http://host:8888/mystream/index.m3u8'' init) = ErrorMode
   \<and> (\<exists>t. run \<lparr> videoMounted = True, hlsSupported = False, nativeHls = False \<rparr>
            [VideoEvent VCanPlay, HlsEvent 0 MANIFEST_PARSED]
            (loadHLSStream \<lparr> videoMounted = True, hlsSupported = False, nativeHls = False \<rparr>
               ''http://host:8888/mystream/index.m3u8'' init) = Inr t
          \<and> streamMode t = ErrorMode \<and> hlsRef t = None)"
proof -
  let ?rt = "\<lparr> videoMounted = True, hlsSupported = False, nativeHls = False \<rparr>"
  have a: "videoMounted ?rt" by simp
  have b: "\<not> hlsSupported ?rt \<and> \<not> nativeHls ?rt" by simp
  have c: "list_all isCallback [VideoEvent VCanPlay, HlsEvent 0 MANIFEST_PARSED]" by simp
  show ?thesis
    using a b c capability_selection [OF a, of "''http://host:8888/mystream/index.m3u8''" init]
    by blast
qed








end
